theory Spec2Isabelle
  imports Main
begin

section \<open>Texts\<close>

text \<open>
  Python's \<^verbatim>\<open>str\<close> is modelled by \<^typ>\<open>string\<close>: a list of characters, each
  character being one code point in the range 0..255 (the Latin-1 block of Unicode).
  On that range \<^verbatim>\<open>str.lower()\<close> works character by character: the capital letters
  A..Z (65..90), and the accented capitals 192..214 and 216..222, move up by 32; every
  other code point (among them the multiplication sign 215 and the sharp s 223) stays.
\<close>

definition lower_char :: "char \<Rightarrow> char" where
  "lower_char c =
     (let n = (of_char c :: nat)
      in if (65 \<le> n \<and> n \<le> 90) \<or> (192 \<le> n \<and> n \<le> 214) \<or> (216 \<le> n \<and> n \<le> 222)
         then char_of (n + 32) else c)"

definition lower :: "string \<Rightarrow> string" where
  "lower s = map lower_char s"

text \<open>\<^verbatim>\<open>s.startswith(k)\<close>, by recursion on both texts.\<close>

fun startswith :: "string \<Rightarrow> string \<Rightarrow> bool" where
  "startswith s [] = True"
| "startswith [] (k # ks) = False"
| "startswith (c # cs) (k # ks) = (c = k \<and> startswith cs ks)"

text \<open>
  \<^verbatim>\<open>k in s\<close> for two texts: \<open>k\<close> occurs in \<open>s\<close> as a contiguous run, at some
  position. The empty text occurs in every text.
\<close>

fun str_in :: "string \<Rightarrow> string \<Rightarrow> bool" where
  "str_in k [] = (k = [])"
| "str_in k (c # cs) = (startswith (c # cs) k \<or> str_in k cs)"

section \<open>The record model\<close>

text \<open>
  \<^verbatim>\<open>class Book(BaseModel)\<close>: one field per attribute, \<^verbatim>\<open>int | None\<close> as
  \<^typ>\<open>int option\<close> (Python integers are unbounded).
\<close>

record Book =
  title :: string
  author_names :: "string list"
  first_publish_year :: "int option"
  publisher :: "string list"
  language :: "string list"
  number_of_pages :: "int option"

section \<open>Filtering\<close>

text \<open>
  \<^verbatim>\<open>BookFetcher.filter_books\<close>. The test \<^verbatim>\<open>if title_contains:\<close> is Python's
  truth test of an optional text: it fails for \<^verbatim>\<open>None\<close> and for the empty text.
\<close>

definition filter_books :: "Book list \<Rightarrow> string option \<Rightarrow> int option \<Rightarrow> Book list" where
  "filter_books books title_contains min_year =
     (let result = books;
          result =
            (case title_contains of
               None \<Rightarrow> result
             | Some [] \<Rightarrow> result
             | Some (c # cs) \<Rightarrow>
                 (let keyword = lower (c # cs)
                  in filter (\<lambda>b. str_in keyword (lower (title b))) result));
          result =
            (case min_year of
               None \<Rightarrow> result
             | Some y \<Rightarrow>
                 filter (\<lambda>b. first_publish_year b \<noteq> None \<and> the (first_publish_year b) \<ge> y) result)
      in result)"

section \<open>JSON values\<close>

text \<open>
  What \<^verbatim>\<open>json.loads\<close> returns and \<^verbatim>\<open>json.dumps\<close> takes: \<^verbatim>\<open>None\<close>, a boolean, an
  integer, a float, a text, a list, or a \<^verbatim>\<open>dict\<close> with text keys. A \<^verbatim>\<open>dict\<close> keeps
  its keys in insertion order, so it is an association list; lookup is \<^const>\<open>map_of\<close>.
  No floating-point arithmetic is modelled: a float is kept as the text of its literal.
\<close>

datatype json =
    JNull
  | JBool bool
  | JInt int
  | JFloat string
  | JStr string
  | JArr "json list"
  | JObj "(string \<times> json) list"

text \<open>
  The exceptions the program can end with: \<^verbatim>\<open>httpx.TransportError\<close> (no response
  arrived), \<^verbatim>\<open>httpx.HTTPStatusError\<close> (with the status code),
  \<^verbatim>\<open>json.JSONDecodeError\<close> and \<^verbatim>\<open>pydantic.ValidationError\<close>.
\<close>

datatype error = TransportError | HTTPStatusError int | JSONDecodeError | ValidationError

section \<open>Parsing JSON: \<^verbatim>\<open>json.loads\<close>\<close>

text \<open>
  The decoder of the standard library, \<^verbatim>\<open>json/decoder.py\<close> and
  \<^verbatim>\<open>json/scanner.py\<close>, with its default options (\<^verbatim>\<open>strict=True\<close>, no hooks). The
  library works with an index into the text; the model works with the rest of the text
  from that index on. Every \<^verbatim>\<open>JSONDecodeError\<close> is the one value
  \<^const>\<open>JSONDecodeError\<close>: messages and positions are not modelled. Two limits of the
  model: a four-digit \<^verbatim>\<open>u\<close> escape above \<^verbatim>\<open>00ff\<close> denotes a code point outside the texts
  modelled here and is rejected, and the interpreter's bound on the number of digits of
  an integer literal is left out (Python integers are unbounded).
\<close>

abbreviation dquote :: char where "dquote \<equiv> CHR 0x22"
abbreviation backslash :: char where "backslash \<equiv> CHR 0x5C"

text \<open>\<^verbatim>\<open>WHITESPACE\<close>: blank, tab, line feed, carriage return.\<close>

definition is_ws :: "char \<Rightarrow> bool" where
  "is_ws c = (c = CHR '' '' \<or> c = CHR 0x09 \<or> c = CHR 0x0A \<or> c = CHR 0x0D)"

definition skipws :: "string \<Rightarrow> string" where
  "skipws s = dropWhile is_ws s"

definition is_digit :: "char \<Rightarrow> bool" where
  "is_digit c = (48 \<le> (of_char c :: nat) \<and> (of_char c :: nat) \<le> 57)"

definition hexval :: "char \<Rightarrow> nat option" where
  "hexval c =
     (let n = (of_char c :: nat)
      in if 48 \<le> n \<and> n \<le> 57 then Some (n - 48)
         else if 97 \<le> n \<and> n \<le> 102 then Some (n - 87)
         else if 65 \<le> n \<and> n \<le> 70 then Some (n - 55)
         else None)"

definition decode_uXXXX :: "char \<Rightarrow> char \<Rightarrow> char \<Rightarrow> char \<Rightarrow> nat option" where
  "decode_uXXXX a b c d =
     (case (hexval a, hexval b, hexval c, hexval d) of
        (Some x, Some y, Some z, Some w) \<Rightarrow> Some (((x * 16 + y) * 16 + z) * 16 + w)
      | _ \<Rightarrow> None)"

definition BACKSLASH :: "char \<Rightarrow> char option" where
  "BACKSLASH e =
     (if e = dquote then Some dquote
      else if e = backslash then Some backslash
      else if e = CHR ''/'' then Some CHR ''/''
      else if e = CHR ''b'' then Some (CHR 0x08)
      else if e = CHR ''f'' then Some (CHR 0x0C)
      else if e = CHR ''n'' then Some (CHR 0x0A)
      else if e = CHR ''r'' then Some (CHR 0x0D)
      else if e = CHR ''t'' then Some (CHR 0x09)
      else None)"

text \<open>
  \<^verbatim>\<open>scanstring\<close>, from just after the opening quote: the text up to the closing quote
  with its escapes resolved, and what follows the closing quote. A control character
  (below 32) inside the text is an error; the four digits of a \<^verbatim>\<open>u\<close> escape are
  hexadecimal digits of either case.
\<close>

definition cons_chunk :: "char \<Rightarrow> error + string \<times> string \<Rightarrow> error + string \<times> string" where
  "cons_chunk c r = (case r of Inl e \<Rightarrow> Inl e | Inr (t, rest) \<Rightarrow> Inr (c # t, rest))"

fun scanstring :: "string \<Rightarrow> error + string \<times> string" where
  "scanstring [] = Inl JSONDecodeError"
| "scanstring (c # cs) =
     (if c = dquote then Inr ([], cs)
      else if c = backslash then
        (case cs of
           [] \<Rightarrow> Inl JSONDecodeError
         | e # r \<Rightarrow>
             if e = CHR ''u'' then
               (case r of
                  h1 # h2 # h3 # h4 # r' \<Rightarrow>
                    (case decode_uXXXX h1 h2 h3 h4 of
                       None \<Rightarrow> Inl JSONDecodeError
                     | Some uni \<Rightarrow>
                         if uni < 256 then cons_chunk (char_of uni) (scanstring r')
                         else Inl JSONDecodeError)
                | _ \<Rightarrow> Inl JSONDecodeError)
             else
               (case BACKSLASH e of
                  None \<Rightarrow> Inl JSONDecodeError
                | Some ch \<Rightarrow> cons_chunk ch (scanstring r)))
      else if (of_char c :: nat) < 32 then Inl JSONDecodeError
      else cons_chunk c (scanstring cs))"

text \<open>
  \<^verbatim>\<open>NUMBER_RE\<close>: an integer part (an optional minus, then a zero or a digit string
  that does not start with zero), an optional fraction (a dot and at least one digit),
  an optional exponent (e or E, an optional sign, at least one digit); each part as long
  as it can be. \<^verbatim>\<open>int(integer)\<close> is \<open>parse_int\<close>.
\<close>

definition digits_val :: "string \<Rightarrow> nat" where
  "digits_val ds = foldl (\<lambda>a c. 10 * a + (of_char c - 48)) 0 ds"

definition parse_int :: "string \<Rightarrow> int" where
  "parse_int s = (case s of c # ds \<Rightarrow> if c = CHR ''-'' then - int (digits_val ds) else int (digits_val s)
                  | [] \<Rightarrow> 0)"

definition match_integer :: "string \<Rightarrow> (string \<times> string) option" where
  "match_integer s =
     (let (sign, r) = (case s of c # cs \<Rightarrow> if c = CHR ''-'' then (''-'', cs) else ([], s) | [] \<Rightarrow> ([], s))
      in case r of
           [] \<Rightarrow> None
         | d # r1 \<Rightarrow>
             if d = CHR ''0'' then Some (sign @ [d], r1)
             else if is_digit d then Some (sign @ d # takeWhile is_digit r1, dropWhile is_digit r1)
             else None)"

definition match_frac :: "string \<Rightarrow> string \<times> string" where
  "match_frac s =
     (case s of
        c # cs \<Rightarrow>
          if c = CHR ''.'' \<and> takeWhile is_digit cs \<noteq> []
          then (c # takeWhile is_digit cs, dropWhile is_digit cs) else ([], s)
      | [] \<Rightarrow> ([], s))"

definition match_exp :: "string \<Rightarrow> string \<times> string" where
  "match_exp s =
     (case s of
        c # cs \<Rightarrow>
          if c = CHR ''e'' \<or> c = CHR ''E'' then
            (let (sg, r) = (case cs of x # xs \<Rightarrow> if x = CHR ''-'' \<or> x = CHR ''+'' then ([x], xs) else ([], cs)
                             | [] \<Rightarrow> ([], cs))
             in if takeWhile is_digit r \<noteq> []
                then (c # sg @ takeWhile is_digit r, dropWhile is_digit r) else ([], s))
          else ([], s)
      | [] \<Rightarrow> ([], s))"

definition match_number :: "string \<Rightarrow> (string \<times> string \<times> string \<times> string) option" where
  "match_number s =
     (case match_integer s of
        None \<Rightarrow> None
      | Some (integer, r) \<Rightarrow>
          (let (frac, r1) = match_frac r; (exp, r2) = match_exp r1
           in Some (integer, frac, exp, r2)))"

text \<open>
  \<^verbatim>\<open>dict(pairs)\<close>: a later pair with a key already present replaces the value and
  keeps the key's place.
\<close>

fun dict_set :: "(string \<times> json) list \<Rightarrow> string \<Rightarrow> json \<Rightarrow> (string \<times> json) list" where
  "dict_set [] k v = [(k, v)]"
| "dict_set ((k', v') # d) k v = (if k' = k then (k', v) # d else (k', v') # dict_set d k v)"

definition dict :: "(string \<times> json) list \<Rightarrow> (string \<times> json) list" where
  "dict pairs = foldl (\<lambda>d (k, v). dict_set d k v) [] pairs"

lemma length_skipws: "length (skipws s) \<le> length s"
  by (simp add: skipws_def length_dropWhile_le)

lemma skipws_Cons_length: "skipws s = c # r \<Longrightarrow> length r < length s"
  using length_skipws [of s] by simp

text \<open>
  \<^verbatim>\<open>scan_once\<close>, \<^verbatim>\<open>JSONArray\<close> and \<^verbatim>\<open>JSONObject\<close>; the two \<^verbatim>\<open>while True\<close> loops
  are \<open>array_loop\<close> (entered where a value is expected) and \<open>object_loop\<close> (entered
  just after the opening quote of a key). The tests \<open>length _ < length s\<close> before the
  recursive calls are not in the library: they make the recursion well-founded, and
  they always pass: lemmas \<open>array_loop_eq\<close> and \<open>object_loop_eq\<close> below show that the
  two loops satisfy their equations without the tests.
\<close>

function scan_once :: "string \<Rightarrow> error + json \<times> string"
  and JSONArray :: "string \<Rightarrow> error + json \<times> string"
  and array_loop :: "string \<Rightarrow> error + json list \<times> string"
  and JSONObject :: "string \<Rightarrow> error + json \<times> string"
  and object_loop :: "string \<Rightarrow> error + (string \<times> json) list \<times> string"
where
  "scan_once s =
     (case s of
        [] \<Rightarrow> Inl JSONDecodeError
      | nextchar # r \<Rightarrow>
          if nextchar = dquote then
            (case scanstring r of Inl e \<Rightarrow> Inl e | Inr (t, r') \<Rightarrow> Inr (JStr t, r'))
          else if nextchar = CHR ''{'' then JSONObject r
          else if nextchar = CHR ''['' then JSONArray r
          else if nextchar = CHR ''n'' \<and> take 4 s = ''null'' then Inr (JNull, drop 4 s)
          else if nextchar = CHR ''t'' \<and> take 4 s = ''true'' then Inr (JBool True, drop 4 s)
          else if nextchar = CHR ''f'' \<and> take 5 s = ''false'' then Inr (JBool False, drop 5 s)
          else
            (case match_number s of
               Some (integer, frac, exp, r') \<Rightarrow>
                 if frac \<noteq> [] \<or> exp \<noteq> [] then Inr (JFloat (integer @ frac @ exp), r')
                 else Inr (JInt (parse_int integer), r')
             | None \<Rightarrow>
                 if nextchar = CHR ''N'' \<and> take 3 s = ''NaN'' then Inr (JFloat ''NaN'', drop 3 s)
                 else if nextchar = CHR ''I'' \<and> take 8 s = ''Infinity''
                   then Inr (JFloat ''Infinity'', drop 8 s)
                 else if nextchar = CHR ''-'' \<and> take 9 s = ''-Infinity''
                   then Inr (JFloat ''-Infinity'', drop 9 s)
                 else Inl JSONDecodeError))"
| "JSONArray s =
     (case skipws s of
        [] \<Rightarrow> Inl JSONDecodeError
      | nextchar # r \<Rightarrow>
          if nextchar = CHR '']'' then Inr (JArr [], r)
          else (case array_loop (nextchar # r) of
                  Inl e \<Rightarrow> Inl e
                | Inr (values, r') \<Rightarrow> Inr (JArr values, r')))"
| "array_loop s =
     (case scan_once s of
        Inl e \<Rightarrow> Inl e
      | Inr (v, r) \<Rightarrow>
          (case skipws r of
             [] \<Rightarrow> Inl JSONDecodeError
           | nextchar # r' \<Rightarrow>
               if nextchar = CHR '']'' then Inr ([v], r')
               else if nextchar \<noteq> CHR '','' then Inl JSONDecodeError
               else if length r' < length s then
                 (case array_loop (skipws r') of
                    Inl e \<Rightarrow> Inl e
                  | Inr (values, r'') \<Rightarrow> Inr (v # values, r''))
               else Inl JSONDecodeError))"
| "JSONObject s =
     (case skipws s of
        [] \<Rightarrow> Inl JSONDecodeError
      | nextchar # r \<Rightarrow>
          if nextchar = CHR ''}'' then Inr (JObj [], r)
          else if nextchar \<noteq> dquote then Inl JSONDecodeError
          else (case object_loop r of
                  Inl e \<Rightarrow> Inl e
                | Inr (pairs, r') \<Rightarrow> Inr (JObj (dict pairs), r')))"
| "object_loop s =
     (case scanstring s of
        Inl e \<Rightarrow> Inl e
      | Inr (key, r) \<Rightarrow>
          (case skipws r of
             [] \<Rightarrow> Inl JSONDecodeError
           | colon # r1 \<Rightarrow>
               if colon \<noteq> CHR '':'' then Inl JSONDecodeError
               else if length r1 < length s then
                 (case scan_once (skipws r1) of
                    Inl e \<Rightarrow> Inl e
                  | Inr (v, r2) \<Rightarrow>
                      (case skipws r2 of
                         [] \<Rightarrow> Inl JSONDecodeError
                       | nextchar # r3 \<Rightarrow>
                           if nextchar = CHR ''}'' then Inr ([(key, v)], r3)
                           else if nextchar \<noteq> CHR '','' then Inl JSONDecodeError
                           else
                             (case skipws r3 of
                                [] \<Rightarrow> Inl JSONDecodeError
                              | q # r4 \<Rightarrow>
                                  if q \<noteq> dquote then Inl JSONDecodeError
                                  else if length r4 < length s then
                                    (case object_loop r4 of
                                       Inl e \<Rightarrow> Inl e
                                     | Inr (pairs, r5) \<Rightarrow> Inr ((key, v) # pairs, r5))
                                  else Inl JSONDecodeError)))
               else Inl JSONDecodeError))"
  by pat_completeness auto

termination
proof (relation "measure (\<lambda>x. case x of
            Inl (Inl s) \<Rightarrow> 3 * length s
          | Inl (Inr s) \<Rightarrow> 3 * length s + 2
          | Inr (Inl s) \<Rightarrow> 3 * length s + 1
          | Inr (Inr (Inl s)) \<Rightarrow> 3 * length s + 2
          | Inr (Inr (Inr s)) \<Rightarrow> 3 * length s + 1)", goal_cases)
  case 1
  show ?case by simp
next
  case 2
  then show ?case by simp
next
  case 3
  then show ?case by simp
next
  case (4 s c r)
  then show ?case using skipws_Cons_length [of s c r] by simp
next
  case 5
  then show ?case by simp
next
  case (6 s x v r c r')
  then show ?case using length_skipws [of r'] by simp
next
  case (7 s c r)
  then show ?case using skipws_Cons_length [of s c r] by simp
next
  case (8 s x key r c r1)
  then show ?case using length_skipws [of r1] by simp
next
  case 9
  then show ?case by simp
qed

text \<open>
  \<^verbatim>\<open>JSONDecoder.decode\<close>, which is \<^verbatim>\<open>json.loads\<close> on a text: one value, with
  whitespace allowed before and after it and nothing else.
\<close>

definition loads :: "string \<Rightarrow> error + json" where
  "loads s =
     (case scan_once (skipws s) of
        Inl e \<Rightarrow> Inl e
      | Inr (obj, r) \<Rightarrow> if skipws r = [] then Inr obj else Inl JSONDecodeError)"

section \<open>Validation: the models of \<^verbatim>\<open>pydantic\<close>\<close>

text \<open>
  \<^verbatim>\<open>Book.model_validate\<close> and \<^verbatim>\<open>OpenLibraryResponse.model_validate\<close> on data
  decoded from JSON, as the two class declarations configure the library:
  \<^item> a field without default is required; a missing field with a default takes the
    default; keys that belong to no field are ignored (the library's default);
  \<^item> a field with an alias is looked up under the alias first and, because of
    \<^verbatim>\<open>populate_by_name=True\<close>, under its own name when the alias is absent;
  \<^item> \<^verbatim>\<open>str\<close> accepts a text only; \<^verbatim>\<open>list[str]\<close> accepts a list of texts only;
  \<^item> \<^verbatim>\<open>int\<close> accepts an integer, and \<^verbatim>\<open>int | None\<close> also \<^verbatim>\<open>None\<close>. In its
    default (lax) mode the library also converts some booleans, floats and texts to
    an integer. Which ones is not fixed here: the conversion is the parameter \<open>lax\<close>
    of every validator, and every result below holds for every \<open>lax\<close>.
  Every failure is the one value \<^const>\<open>ValidationError\<close>.
\<close>

definition bind :: "error + 'a \<Rightarrow> ('a \<Rightarrow> error + 'b) \<Rightarrow> error + 'b" where
  "bind r f = (case r of Inl e \<Rightarrow> Inl e | Inr x \<Rightarrow> f x)"

definition required :: "(json \<Rightarrow> error + 'a) \<Rightarrow> json option \<Rightarrow> error + 'a" where
  "required validate v = (case v of None \<Rightarrow> Inl ValidationError | Some x \<Rightarrow> validate x)"

definition with_default :: "'a \<Rightarrow> (json \<Rightarrow> error + 'a) \<Rightarrow> json option \<Rightarrow> error + 'a" where
  "with_default d validate v = (case v of None \<Rightarrow> Inr d | Some x \<Rightarrow> validate x)"

definition get_field :: "(string \<times> json) list \<Rightarrow> string \<Rightarrow> string \<Rightarrow> json option" where
  "get_field m alias name =
     (case map_of m alias of Some v \<Rightarrow> Some v | None \<Rightarrow> map_of m name)"

fun validate_all :: "('a \<Rightarrow> error + 'b) \<Rightarrow> 'a list \<Rightarrow> error + 'b list" where
  "validate_all validate [] = Inr []"
| "validate_all validate (x # xs) =
     bind (validate x) (\<lambda>y. bind (validate_all validate xs) (\<lambda>ys. Inr (y # ys)))"

definition validate_str :: "json \<Rightarrow> error + string" where
  "validate_str v = (case v of JStr s \<Rightarrow> Inr s | _ \<Rightarrow> Inl ValidationError)"

definition validate_list_str :: "json \<Rightarrow> error + string list" where
  "validate_list_str v =
     (case v of JArr items \<Rightarrow> validate_all validate_str items | _ \<Rightarrow> Inl ValidationError)"

definition validate_int :: "(json \<Rightarrow> int option) \<Rightarrow> json \<Rightarrow> error + int" where
  "validate_int lax v =
     (case v of
        JInt n \<Rightarrow> Inr n
      | JNull \<Rightarrow> Inl ValidationError
      | JArr _ \<Rightarrow> Inl ValidationError
      | JObj _ \<Rightarrow> Inl ValidationError
      | _ \<Rightarrow> (case lax v of Some n \<Rightarrow> Inr n | None \<Rightarrow> Inl ValidationError))"

definition validate_opt_int :: "(json \<Rightarrow> int option) \<Rightarrow> json \<Rightarrow> error + int option" where
  "validate_opt_int lax v =
     (case v of JNull \<Rightarrow> Inr None | _ \<Rightarrow> bind (validate_int lax v) (\<lambda>n. Inr (Some n)))"

definition Book_validate :: "(json \<Rightarrow> int option) \<Rightarrow> json \<Rightarrow> error + Book" where
  "Book_validate lax data =
     (case data of
        JObj m \<Rightarrow>
          bind (required validate_str (map_of m ''title'')) (\<lambda>t.
          bind (with_default [] validate_list_str
                  (get_field m ''author_name'' ''author_names'')) (\<lambda>a.
          bind (with_default None (validate_opt_int lax)
                  (map_of m ''first_publish_year'')) (\<lambda>y.
          bind (with_default [] validate_list_str (map_of m ''publisher'')) (\<lambda>p.
          bind (with_default [] validate_list_str (map_of m ''language'')) (\<lambda>l.
          bind (with_default None (validate_opt_int lax)
                  (get_field m ''number_of_pages_median'' ''number_of_pages'')) (\<lambda>n.
          Inr \<lparr>title = t, author_names = a, first_publish_year = y, publisher = p,
               language = l, number_of_pages = n\<rparr>))))))
      | _ \<Rightarrow> Inl ValidationError)"

text \<open>The keys that \<open>Book_validate\<close> reads: every alias and every field name.\<close>

definition Book_keys :: "string list" where
  "Book_keys = [''title'', ''author_name'', ''author_names'', ''first_publish_year'',
                ''publisher'', ''language'', ''number_of_pages_median'', ''number_of_pages'']"

record OpenLibraryResponse =
  num_found :: int
  docs :: "Book list"

definition validate_list_Book :: "(json \<Rightarrow> int option) \<Rightarrow> json \<Rightarrow> error + Book list" where
  "validate_list_Book lax v =
     (case v of JArr items \<Rightarrow> validate_all (Book_validate lax) items
      | _ \<Rightarrow> Inl ValidationError)"

definition OpenLibraryResponse_validate ::
  "(json \<Rightarrow> int option) \<Rightarrow> json \<Rightarrow> error + OpenLibraryResponse" where
  "OpenLibraryResponse_validate lax data =
     (case data of
        JObj m \<Rightarrow>
          bind (required (validate_int lax) (get_field m ''numFound'' ''num_found'')) (\<lambda>n.
          bind (required (validate_list_Book lax) (map_of m ''docs'')) (\<lambda>d.
          Inr \<lparr>num_found = n, docs = d\<rparr>))
      | _ \<Rightarrow> Inl ValidationError)"

section \<open>Fetching\<close>

text \<open>
  The network is the one collaborator of \<^verbatim>\<open>fetch_books\<close>. It is modelled as a state:
  the replies the server will give to the coming requests, in order, and the requests
  sent so far. \<^verbatim>\<open>client.get\<close> sends one request and takes the first pending reply;
  \<open>NoReply\<close> (and an empty list of replies) stands for a connection failure or a
  timeout, on which \<^verbatim>\<open>httpx\<close> raises a transport error. A response carries its status
  code and its body, as decoded text.
\<close>

record Response =
  status_code :: int
  content :: string

record Request =
  url :: string
  params :: "(string \<times> json) list"

datatype reply = NoReply | Reply Response

record Network =
  pending :: "reply list"
  sent :: "Request list"

definition BASE_URL :: string where
  "BASE_URL = ''https://openlibrary.org/search.json''"

definition client_get :: "string \<Rightarrow> (string \<times> json) list \<Rightarrow> Network \<Rightarrow> (error + Response) \<times> Network" where
  "client_get u ps net =
     (let net' = net\<lparr>sent := sent net @ [\<lparr>url = u, params = ps\<rparr>]\<rparr>
      in case pending net of
           [] \<Rightarrow> (Inl TransportError, net')
         | NoReply # rest \<Rightarrow> (Inl TransportError, net'\<lparr>pending := rest\<rparr>)
         | Reply r # rest \<Rightarrow> (Inr r, net'\<lparr>pending := rest\<rparr>))"

text \<open>\<^verbatim>\<open>Response.is_success\<close>: the status codes 200 to 299.\<close>

definition is_success :: "Response \<Rightarrow> bool" where
  "is_success r = (200 \<le> status_code r \<and> status_code r \<le> 299)"

definition raise_for_status :: "Response \<Rightarrow> error + Response" where
  "raise_for_status r = (if is_success r then Inr r else Inl (HTTPStatusError (status_code r)))"

text \<open>\<^verbatim>\<open>Response.json()\<close>: the body, parsed.\<close>

definition response_json :: "Response \<Rightarrow> error + json" where
  "response_json r = loads (content r)"

text \<open>The one request of a call: the fixed address with the parameters \<open>q\<close> and \<open>limit\<close>.\<close>

definition request_of :: "string \<Rightarrow> int \<Rightarrow> Request" where
  "request_of query limit =
     \<lparr>url = BASE_URL, params = [(''q'', JStr query), (''limit'', JInt limit)]\<rparr>"

text \<open>
  \<^verbatim>\<open>BookFetcher.fetch_books\<close>: the result, or the exception that ends the call, and
  the network afterwards.
\<close>

definition fetch_books ::
  "(json \<Rightarrow> int option) \<Rightarrow> string \<Rightarrow> int \<Rightarrow> Network \<Rightarrow> (error + Book list) \<times> Network" where
  "fetch_books lax query limit net =
     (let ps = [(''q'', JStr query), (''limit'', JInt limit)];
          (got, net') = client_get BASE_URL ps net
      in (bind got (\<lambda>response.
          bind (raise_for_status response) (\<lambda>_.
          bind (response_json response) (\<lambda>data.
          bind (OpenLibraryResponse_validate lax data) (\<lambda>parsed.
          Inr (docs parsed))))), net'))"

section \<open>Formatting: \<^verbatim>\<open>JsonFormatter\<close>\<close>

text \<open>
  \<^verbatim>\<open>json.dumps(obj, indent=n, ensure_ascii=False)\<close>, that is \<^verbatim>\<open>_make_iterencode\<close> of
  \<^verbatim>\<open>json/encoder.py\<close> with the item separator \<^verbatim>\<open>,\<close> and the key separator
  \<^verbatim>\<open>: \<close>.
\<close>

definition digit_char :: "nat \<Rightarrow> char" where
  "digit_char d = char_of (48 + d)"

text \<open>\<^verbatim>\<open>int.__repr__\<close>: the decimal digits, after a minus sign for a negative integer.\<close>

function decimal :: "nat \<Rightarrow> string" where
  "decimal n = (if n < 10 then [digit_char n] else decimal (n div 10) @ [digit_char (n mod 10)])"
  by pat_completeness auto
termination
  by (relation "measure id") auto










record JsonFormatter =
  indent :: int


definition get_file_extension :: "JsonFormatter \<Rightarrow> string" where
  "get_file_extension self = ''.json''"


section \<open>Values that are written and read back\<close>





text \<open>
  The records of the specification's scenario. The scenario gives a title and a year
  only; the other fields take the defaults of the class (empty lists, \<^verbatim>\<open>None\<close>).
\<close>

definition mk_book :: "string \<Rightarrow> int option \<Rightarrow> Book" where
  "mk_book t y =
     \<lparr>title = t, author_names = [], first_publish_year = y, publisher = [],
      language = [], number_of_pages = None\<rparr>"

definition scenario_books :: "Book list" where
  "scenario_books =
     [mk_book ''Python Crash Course'' (Some 2015),
      mk_book ''Learning Go'' (Some 2009),
      mk_book ''Python Tricks'' (Some 2005)]"


text \<open>
  Sample data: a conversion that converts nothing; a record of the search service, with
  a key the model does not know, and the record it validates into; a mapping written
  with the field names of the class, and its record; and three response bodies.
\<close>

definition no_lax :: "json \<Rightarrow> int option" where
  "no_lax v = None"

definition sample_doc :: "(string \<times> json) list" where
  "sample_doc =
     [(''title'', JStr ''Dune''),
      (''author_name'', JArr [JStr ''Frank Herbert'']),
      (''first_publish_year'', JInt 1965),
      (''number_of_pages_median'', JInt 412),
      (''edition_count'', JInt 120)]"

definition by_name_doc :: "(string \<times> json) list" where
  "by_name_doc =
     [(''title'', JStr ''Dune''),
      (''author_names'', JArr [JStr ''Frank Herbert'']),
      (''number_of_pages'', JInt 412)]"

definition by_name_book :: Book where
  "by_name_book =
     \<lparr>title = ''Dune'', author_names = [''Frank Herbert''], first_publish_year = None,
      publisher = [], language = [], number_of_pages = Some 412\<rparr>"

definition sample_book :: Book where
  "sample_book =
     \<lparr>title = ''Dune'', author_names = [''Frank Herbert''], first_publish_year = Some 1965,
      publisher = [], language = [], number_of_pages = Some 412\<rparr>"



definition body_ok :: string where
  \<open>body_ok = ''{"numFound": 7, "docs": [{"title": "Dune"}]}''\<close>

definition net_of :: "reply list \<Rightarrow> Network" where
  "net_of replies = \<lparr>pending = replies, sent = []\<rparr>"

section \<open>Facts about the text operations\<close>

lemma startswith_iff: "startswith s k \<longleftrightarrow> (\<exists>suf. s = k @ suf)"
  by (induction s k rule: startswith.induct) auto

lemma str_in_iff: "str_in k s \<longleftrightarrow> (\<exists>pre suf. s = pre @ k @ suf)"
proof (induction s)
  case Nil
  show ?case by auto
next
  case (Cons c cs)
  have "(\<exists>pre suf. c # cs = pre @ k @ suf) \<longleftrightarrow>
        (\<exists>suf. c # cs = k @ suf) \<or> (\<exists>pre suf. cs = pre @ k @ suf)"
  proof
    assume "\<exists>pre suf. c # cs = pre @ k @ suf"
    then obtain pre suf where e: "c # cs = pre @ k @ suf" by blast
    show "(\<exists>suf. c # cs = k @ suf) \<or> (\<exists>pre suf. cs = pre @ k @ suf)"
    proof (cases pre)
      case Nil
      with e show ?thesis by auto
    next
      case (Cons p ps)
      with e have "cs = ps @ k @ suf" by simp
      then show ?thesis by blast
    qed
  next
    assume "(\<exists>suf. c # cs = k @ suf) \<or> (\<exists>pre suf. cs = pre @ k @ suf)"
    then show "\<exists>pre suf. c # cs = pre @ k @ suf"
    proof
      assume "\<exists>suf. c # cs = k @ suf"
      then obtain suf where "c # cs = [] @ k @ suf" by auto
      then show ?thesis by blast
    next
      assume "\<exists>pre suf. cs = pre @ k @ suf"
      then obtain pre suf where "c # cs = (c # pre) @ k @ suf" by auto
      then show ?thesis by blast
    qed
  qed
  with Cons show ?case by (simp add: startswith_iff)
qed




lemma lower_python: "lower ''python'' = ''python''"
  by code_simp

section \<open>Facts about filtering\<close>

lemma filter_books_title:
  "q \<noteq> [] \<Longrightarrow> filter_books books (Some q) my =
     filter_books (filter (\<lambda>b. str_in (lower q) (lower (title b))) books) None my"
  by (cases q) (simp_all add: filter_books_def)

lemma filter_books_empty_title:
  "filter_books books (Some []) my = filter_books books None my"
  by (simp add: filter_books_def)

lemma filter_books_None_None: "filter_books books None None = books"
  by (simp add: filter_books_def)

lemma filter_books_year:
  "filter_books books tc (Some y) =
     filter (\<lambda>b. \<exists>v. first_publish_year b = Some v \<and> y \<le> v) (filter_books books tc None)"
  by (auto simp: filter_books_def split: option.splits list.splits intro!: filter_cong)



text \<open>
  Claim C2. With a year bound \<open>y\<close>, \<open>filter_books\<close> keeps exactly the records (already
  kept by the title criterion, if there is one) whose year is known and at least \<open>y\<close>.
  A record whose year equals the bound is kept; a record with no year is never in the
  result when a bound is given. With no bound, a record with no year is kept: always
  when there is no title criterion, and when it meets the title criterion otherwise.
\<close>

theorem filter_books_min_year:
  "filter_books books None (Some y) =
     filter (\<lambda>b. \<exists>v. first_publish_year b = Some v \<and> y \<le> v) books
   \<and> filter_books books tc (Some y) =
     filter (\<lambda>b. \<exists>v. first_publish_year b = Some v \<and> y \<le> v) (filter_books books tc None)
   \<and> (first_publish_year b = Some y \<longrightarrow> filter_books [b] None (Some y) = [b])
   \<and> (first_publish_year b = None \<longrightarrow> b \<notin> set (filter_books books tc (Some y)))
   \<and> (first_publish_year b = None \<and> b \<in> set books \<longrightarrow> b \<in> set (filter_books books None None))
   \<and> (first_publish_year b = None \<and> b \<in> set books \<and> q \<noteq> []
        \<and> str_in (lower q) (lower (title b)) \<longrightarrow>
          b \<in> set (filter_books books (Some q) None))"
proof (intro conjI impI)
  show "filter_books books tc (Some y) =
     filter (\<lambda>b. \<exists>v. first_publish_year b = Some v \<and> y \<le> v) (filter_books books tc None)"
    by (rule filter_books_year)
  then show "filter_books books None (Some y) =
     filter (\<lambda>b. \<exists>v. first_publish_year b = Some v \<and> y \<le> v) books"
    by (simp add: filter_books_year filter_books_None_None)
next
  assume "first_publish_year b = Some y"
  then show "filter_books [b] None (Some y) = [b]"
    by (simp add: filter_books_year filter_books_None_None)
next
  assume "first_publish_year b = None"
  then show "b \<notin> set (filter_books books tc (Some y))"
    by (simp add: filter_books_year)
next
  assume "first_publish_year b = None \<and> b \<in> set books"
  then show "b \<in> set (filter_books books None None)"
    by (simp add: filter_books_None_None)
next
  assume "first_publish_year b = None \<and> b \<in> set books \<and> q \<noteq> []
        \<and> str_in (lower q) (lower (title b))"
  then show "b \<in> set (filter_books books (Some q) None)"
    by (simp add: filter_books_title filter_books_None_None)
qed

theorem filter_books_min_year_witness:
  "filter_books [mk_book ''a'' (Some 2010), mk_book ''b'' None, mk_book ''c'' (Some 2009)]
     None (Some 2010) = [mk_book ''a'' (Some 2010)]
   \<and> filter_books [mk_book ''a'' (Some 2010)] None (Some 2010) = [mk_book ''a'' (Some 2010)]
   \<and> mk_book ''b'' None \<notin> set (filter_books
        [mk_book ''a'' (Some 2010), mk_book ''b'' None, mk_book ''c'' (Some 2009)]
        (Some ''b'') (Some 2010))
   \<and> mk_book ''b'' None \<in> set (filter_books
        [mk_book ''a'' (Some 2010), mk_book ''b'' None, mk_book ''c'' (Some 2009)] None None)
   \<and> mk_book ''b'' None \<in> set (filter_books
        [mk_book ''a'' (Some 2010), mk_book ''b'' None, mk_book ''c'' (Some 2009)]
        (Some ''B'') None)"
proof -
  let ?books = "[mk_book ''a'' (Some 2010), mk_book ''b'' None, mk_book ''c'' (Some 2009)]"
  note t = filter_books_min_year [of ?books 2010 "Some ''b''" "mk_book ''b'' None" "''B''"]
  note u = filter_books_min_year [of "[]" 2010 None "mk_book ''a'' (Some 2010)" "''B''"]
  have y: "first_publish_year (mk_book ''b'' None) = None" by (simp add: mk_book_def)
  have ya: "first_publish_year (mk_book ''a'' (Some 2010)) = Some 2010" by (simp add: mk_book_def)
  have m: "mk_book ''b'' None \<in> set ?books" by simp
  have q: "''B'' \<noteq> []" by simp
  have l: "lower ''B'' = ''b''" "lower ''b'' = ''b''" by code_simp+
  have s: "str_in (lower ''B'') (lower (title (mk_book ''b'' None)))"
    by (simp add: l mk_book_def)
  from t have c1: "filter_books ?books None (Some 2010) = [mk_book ''a'' (Some 2010)]"
    by (simp add: mk_book_def)
  from u ya have c2: "filter_books [mk_book ''a'' (Some 2010)] None (Some 2010) =
      [mk_book ''a'' (Some 2010)]" by blast
  from t y have c3: "mk_book ''b'' None \<notin> set (filter_books ?books (Some ''b'') (Some 2010))"
    by blast
  from t y m have c4: "mk_book ''b'' None \<in> set (filter_books ?books None None)" by blast
  from t y m q s have c5: "mk_book ''b'' None \<in> set (filter_books ?books (Some ''B'') None)"
    by blast
  from c1 c2 c3 c4 c5 show ?thesis by (intro conjI)
qed

text \<open>
  Claim C3. With both criteria supplied (the query non-empty), a record is kept exactly
  when it meets the title criterion and the year criterion. On the three records of the
  scenario, the query \<open>python\<close> with the bound 2010 leaves the one record titled
  \<open>Python Crash Course\<close>.
\<close>

theorem filter_books_both:
  "(q \<noteq> [] \<longrightarrow>
      filter_books books (Some q) (Some y) =
        filter (\<lambda>b. (\<exists>pre suf. lower (title b) = pre @ lower q @ suf)
                   \<and> (\<exists>v. first_publish_year b = Some v \<and> y \<le> v)) books)
   \<and> filter_books books tc my =
        filter (\<lambda>b. b \<in> set (filter_books books tc None)
                   \<and> b \<in> set (filter_books books None my)) books
   \<and> filter_books scenario_books (Some ''python'') (Some 2010) =
        [mk_book ''Python Crash Course'' (Some 2015)]"
proof (intro conjI impI)
  assume "q \<noteq> []"
  then show "filter_books books (Some q) (Some y) =
        filter (\<lambda>b. (\<exists>pre suf. lower (title b) = pre @ lower q @ suf)
                   \<and> (\<exists>v. first_publish_year b = Some v \<and> y \<le> v)) books"
    by (simp add: filter_books_year filter_books_title filter_books_None_None str_in_iff)
next
  show "filter_books books tc my =
        filter (\<lambda>b. b \<in> set (filter_books books tc None)
                   \<and> b \<in> set (filter_books books None my)) books"
    by (auto simp: filter_books_def split: option.splits list.splits intro!: filter_cong)
next
  have l1: "lower ''Python Crash Course'' = ''python crash course''" by code_simp
  have l2: "lower ''Learning Go'' = ''learning go''" by code_simp
  have l3: "lower ''Python Tricks'' = ''python tricks''" by code_simp
  show "filter_books scenario_books (Some ''python'') (Some 2010) =
        [mk_book ''Python Crash Course'' (Some 2015)]"
    by (simp add: filter_books_def scenario_books_def mk_book_def lower_python l1 l2 l3)
qed

theorem filter_books_both_witness:
  "''python'' \<noteq> []
   \<and> filter_books scenario_books (Some ''python'') (Some 2010) =
        filter (\<lambda>b. (\<exists>pre suf. lower (title b) = pre @ lower ''python'' @ suf)
                   \<and> (\<exists>v. first_publish_year b = Some v \<and> 2010 \<le> v)) scenario_books"
proof -
  have h: "''python'' \<noteq> []" by simp
  have "filter_books scenario_books (Some ''python'') (Some 2010) =
        filter (\<lambda>b. (\<exists>pre suf. lower (title b) = pre @ lower ''python'' @ suf)
                   \<and> (\<exists>v. first_publish_year b = Some v \<and> 2010 \<le> v)) scenario_books"
    using h filter_books_both [of "''python''" scenario_books 2010] by blast
  with h show ?thesis by (rule conjI)
qed

text \<open>
  Claim C4. With neither criterion supplied, \<open>filter_books\<close> returns the list it was
  given: the same records in the same order.
\<close>

theorem filter_books_no_criteria: "filter_books books None None = books"
  by (simp add: filter_books_def)

text \<open>
  Claim C5. Filtering the result of \<open>filter_books\<close> again, with the same two arguments,
  changes nothing.
\<close>

theorem filter_books_idempotent:
  "filter_books (filter_books books title_contains min_year) title_contains min_year =
   filter_books books title_contains min_year"
  by (auto simp: filter_books_def split: option.splits list.splits intro!: filter_cong)

section \<open>Facts about validation and fetching\<close>

lemma bind_Inl [simp]: "bind (Inl e) f = Inl e"
  by (simp add: bind_def)

lemma bind_Inr [simp]: "bind (Inr x) f = f x"
  by (simp add: bind_def)

lemma bind_eq_Inr: "bind r f = Inr y \<longleftrightarrow> (\<exists>x. r = Inr x \<and> f x = Inr y)"
  by (cases r) simp_all

lemma validate_str_eq_Inr: "validate_str v = Inr s \<longleftrightarrow> v = JStr s"
  by (cases v) (simp_all add: validate_str_def)


lemma validate_all_str_eq_Inr:
  "validate_all validate_str items = Inr xs \<longleftrightarrow> items = map JStr xs"
proof (induction items arbitrary: xs)
  case Nil
  show ?case by auto
next
  case (Cons v vs)
  show ?case
    by (cases xs) (auto simp: bind_eq_Inr validate_str_eq_Inr Cons.IH)
qed

lemma validate_list_str_eq_Inr: "validate_list_str v = Inr xs \<longleftrightarrow> v = JArr (map JStr xs)"
  by (cases v) (simp_all add: validate_list_str_def validate_all_str_eq_Inr)













lemma Book_validate_eq_Inr:
  "Book_validate lax (JObj m) = Inr b \<longleftrightarrow>
     required validate_str (map_of m ''title'') = Inr (title b)
   \<and> with_default [] validate_list_str (get_field m ''author_name'' ''author_names'')
       = Inr (author_names b)
   \<and> with_default None (validate_opt_int lax) (map_of m ''first_publish_year'')
       = Inr (first_publish_year b)
   \<and> with_default [] validate_list_str (map_of m ''publisher'') = Inr (publisher b)
   \<and> with_default [] validate_list_str (map_of m ''language'') = Inr (language b)
   \<and> with_default None (validate_opt_int lax)
        (get_field m ''number_of_pages_median'' ''number_of_pages'') = Inr (number_of_pages b)"
  by (cases b) (auto simp: Book_validate_def bind_eq_Inr)


lemma with_default_list_str_Some:
  "with_default [] validate_list_str (Some v) = Inr xs \<longleftrightarrow> v = JArr (map JStr xs)"
  by (simp add: with_default_def validate_list_str_eq_Inr)

lemma with_default_None: "with_default d validate None = Inr x \<longleftrightarrow> x = d"
  by (auto simp: with_default_def)

lemma with_default_Some: "with_default d validate (Some v) = validate v"
  by (simp add: with_default_def)

lemma required_str_eq_Inr: "required validate_str v = Inr s \<longleftrightarrow> v = Some (JStr s)"
  by (cases v) (simp_all add: required_def validate_str_eq_Inr)

lemma Book_validate_depends:
  assumes "\<forall>k\<in>set Book_keys. map_of m' k = map_of m k"
  shows "Book_validate lax (JObj m') = Book_validate lax (JObj m)"
proof -
  from assms have e:
    "map_of m' ''title'' = map_of m ''title''"
    "map_of m' ''author_name'' = map_of m ''author_name''"
    "map_of m' ''author_names'' = map_of m ''author_names''"
    "map_of m' ''first_publish_year'' = map_of m ''first_publish_year''"
    "map_of m' ''publisher'' = map_of m ''publisher''"
    "map_of m' ''language'' = map_of m ''language''"
    "map_of m' ''number_of_pages_median'' = map_of m ''number_of_pages_median''"
    "map_of m' ''number_of_pages'' = map_of m ''number_of_pages''"
    by (simp_all add: Book_keys_def)
  have g1: "get_field m' ''author_name'' ''author_names'' =
            get_field m ''author_name'' ''author_names''"
    unfolding get_field_def e ..
  have g2: "get_field m' ''number_of_pages_median'' ''number_of_pages'' =
            get_field m ''number_of_pages_median'' ''number_of_pages''"
    unfolding get_field_def e ..
  show ?thesis
    unfolding Book_validate_def json.case e g1 g2 ..
qed

text \<open>
  Claim C6, as the code has it. When a mapping validates into a record: the title is the
  text under \<open>title\<close>; the value under \<open>author_name\<close>, when present, is the list of
  author names, and the value under \<open>number_of_pages_median\<close>, when present, gives the
  number of pages; the year, the publishers and the languages come from the keys of the
  same name; a mapping that agrees on the eight keys the model reads gives the same
  record, so every other key is ignored. A list field is empty and an optional number is
  \<open>None\<close> when no key for it is present, where the keys for the author names are
  \<open>author_name\<close> and \<open>author_names\<close> and the keys for the number of pages are
  \<open>number_of_pages_median\<close> and \<open>number_of_pages\<close>: when the alias is absent, the value
  under the field's own name populates the field.
\<close>

theorem Book_validate_fields:
  "Book_validate lax (JObj m) = Inr b \<Longrightarrow>
     map_of m ''title'' = Some (JStr (title b))
   \<and> (\<forall>v. map_of m ''author_name'' = Some v \<longrightarrow> v = JArr (map JStr (author_names b)))
   \<and> (\<forall>v. map_of m ''number_of_pages_median'' = Some v \<longrightarrow>
          validate_opt_int lax v = Inr (number_of_pages b))
   \<and> (\<forall>v. map_of m ''first_publish_year'' = Some v \<longrightarrow>
          validate_opt_int lax v = Inr (first_publish_year b))
   \<and> (\<forall>v. map_of m ''publisher'' = Some v \<longrightarrow> v = JArr (map JStr (publisher b)))
   \<and> (\<forall>v. map_of m ''language'' = Some v \<longrightarrow> v = JArr (map JStr (language b)))
   \<and> (\<forall>m'. (\<forall>k\<in>set Book_keys. map_of m' k = map_of m k) \<longrightarrow>
          Book_validate lax (JObj m') = Inr b)
   \<and> (map_of m ''author_name'' = None \<and> map_of m ''author_names'' = None \<longrightarrow>
          author_names b = [])
   \<and> (map_of m ''publisher'' = None \<longrightarrow> publisher b = [])
   \<and> (map_of m ''language'' = None \<longrightarrow> language b = [])
   \<and> (map_of m ''first_publish_year'' = None \<longrightarrow> first_publish_year b = None)
   \<and> (map_of m ''number_of_pages_median'' = None \<and> map_of m ''number_of_pages'' = None \<longrightarrow>
          number_of_pages b = None)
   \<and> (\<forall>v. map_of m ''author_name'' = None \<and> map_of m ''author_names'' = Some v \<longrightarrow>
          v = JArr (map JStr (author_names b)))
   \<and> (\<forall>v. map_of m ''number_of_pages_median'' = None \<and> map_of m ''number_of_pages'' = Some v \<longrightarrow>
          validate_opt_int lax v = Inr (number_of_pages b))"
proof -
  assume ok: "Book_validate lax (JObj m) = Inr b"
  note f = ok [unfolded Book_validate_eq_Inr]
  from f have t: "required validate_str (map_of m ''title'') = Inr (title b)" by simp
  from f have a: "with_default [] validate_list_str
      (get_field m ''author_name'' ''author_names'') = Inr (author_names b)" by simp
  from f have y: "with_default None (validate_opt_int lax) (map_of m ''first_publish_year'')
      = Inr (first_publish_year b)" by simp
  from f have p: "with_default [] validate_list_str (map_of m ''publisher'') = Inr (publisher b)"
    by simp
  from f have l: "with_default [] validate_list_str (map_of m ''language'') = Inr (language b)"
    by simp
  from f have n: "with_default None (validate_opt_int lax)
      (get_field m ''number_of_pages_median'' ''number_of_pages'') = Inr (number_of_pages b)"
    by simp
  have c1: "map_of m ''title'' = Some (JStr (title b))"
    using t by (simp add: required_str_eq_Inr)
  have c2: "\<forall>v. map_of m ''author_name'' = Some v \<longrightarrow> v = JArr (map JStr (author_names b))"
    using a by (auto simp: get_field_def with_default_list_str_Some)
  have c3: "\<forall>v. map_of m ''number_of_pages_median'' = Some v \<longrightarrow>
          validate_opt_int lax v = Inr (number_of_pages b)"
    using n by (auto simp: get_field_def with_default_Some)
  have c4: "\<forall>v. map_of m ''first_publish_year'' = Some v \<longrightarrow>
          validate_opt_int lax v = Inr (first_publish_year b)"
    using y by (auto simp: with_default_Some)
  have c5: "\<forall>v. map_of m ''publisher'' = Some v \<longrightarrow> v = JArr (map JStr (publisher b))"
    using p by (auto simp: with_default_list_str_Some)
  have c6: "\<forall>v. map_of m ''language'' = Some v \<longrightarrow> v = JArr (map JStr (language b))"
    using l by (auto simp: with_default_list_str_Some)
  have c7: "\<forall>m'. (\<forall>k\<in>set Book_keys. map_of m' k = map_of m k) \<longrightarrow>
          Book_validate lax (JObj m') = Inr b"
    using ok Book_validate_depends by metis
  have c8: "map_of m ''author_name'' = None \<and> map_of m ''author_names'' = None \<longrightarrow>
          author_names b = []"
    using a by (auto simp: get_field_def with_default_None)
  have c9: "map_of m ''publisher'' = None \<longrightarrow> publisher b = []"
    using p by (auto simp: with_default_None)
  have c10: "map_of m ''language'' = None \<longrightarrow> language b = []"
    using l by (auto simp: with_default_None)
  have c11: "map_of m ''first_publish_year'' = None \<longrightarrow> first_publish_year b = None"
    using y by (auto simp: with_default_None)
  have c12: "map_of m ''number_of_pages_median'' = None \<and> map_of m ''number_of_pages'' = None \<longrightarrow>
          number_of_pages b = None"
    using n by (auto simp: get_field_def with_default_None)
  have c13: "\<forall>v. map_of m ''author_name'' = None \<and> map_of m ''author_names'' = Some v \<longrightarrow>
          v = JArr (map JStr (author_names b))"
    using a by (auto simp: get_field_def with_default_list_str_Some)
  have c14: "\<forall>v. map_of m ''number_of_pages_median'' = None \<and> map_of m ''number_of_pages'' = Some v \<longrightarrow>
          validate_opt_int lax v = Inr (number_of_pages b)"
    using n by (auto simp: get_field_def with_default_Some)
  from c1 c2 c3 c4 c5 c6 c7 c8 c9 c10 c11 c12 c13 c14 show ?thesis by blast
qed


lemma fetch_books_Reply:
  "pending net = Reply r # rest \<Longrightarrow>
   fetch_books lax query limit net =
     (bind (raise_for_status r) (\<lambda>_.
      bind (response_json r) (\<lambda>data.
      bind (OpenLibraryResponse_validate lax data) (\<lambda>parsed.
      Inr (docs parsed)))),
      net\<lparr>sent := sent net @ [request_of query limit], pending := rest\<rparr>)"
  by (simp add: fetch_books_def client_get_def request_of_def)









lemma loads_body_ok:
  "loads body_ok =
     Inr (JObj [(''numFound'', JInt 7), (''docs'', JArr [JObj [(''title'', JStr ''Dune'')]])])"
  by code_simp

lemmas validate_defs =
  Book_validate_def get_field_def required_def with_default_def validate_str_def
  validate_list_str_def validate_opt_int_def validate_int_def validate_list_Book_def
  OpenLibraryResponse_validate_def

lemma Book_validate_sample: "Book_validate no_lax (JObj sample_doc) = Inr sample_book"
  by (simp add: validate_defs sample_doc_def sample_book_def)

theorem Book_validate_fields_witness:
  "Book_validate no_lax (JObj sample_doc) = Inr sample_book
   \<and> map_of sample_doc ''title'' = Some (JStr (title sample_book))
   \<and> map_of sample_doc ''author_name'' = Some (JArr (map JStr (author_names sample_book)))
   \<and> map_of sample_doc ''number_of_pages_median'' = Some (JInt 412)
   \<and> validate_opt_int no_lax (JInt 412) = Inr (number_of_pages sample_book)
   \<and> map_of sample_doc ''publisher'' = None
   \<and> publisher sample_book = []
   \<and> map_of sample_doc ''language'' = None
   \<and> language sample_book = []
   \<and> Book_validate no_lax (JObj ((''isbn'', JArr []) # sample_doc)) = Inr sample_book"
proof -
  note h = Book_validate_sample
  note t = Book_validate_fields [OF h]
  have k: "\<forall>k\<in>set Book_keys. map_of ((''isbn'', JArr []) # sample_doc) k = map_of sample_doc k"
    by (simp add: Book_keys_def)
  have a: "map_of sample_doc ''author_name'' = Some (JArr [JStr ''Frank Herbert''])"
    by (simp add: sample_doc_def)
  have n: "map_of sample_doc ''number_of_pages_median'' = Some (JInt 412)"
    by (simp add: sample_doc_def)
  have p: "map_of sample_doc ''publisher'' = None"
    by (simp add: sample_doc_def)
  have l: "map_of sample_doc ''language'' = None"
    by (simp add: sample_doc_def)
  from t have c1: "map_of sample_doc ''title'' = Some (JStr (title sample_book))" by blast
  from t a have c2: "map_of sample_doc ''author_name'' =
      Some (JArr (map JStr (author_names sample_book)))" by metis
  from t n have c3: "validate_opt_int no_lax (JInt 412) = Inr (number_of_pages sample_book)"
    by blast
  from t p have c4: "publisher sample_book = []" by blast
  from t l have c5: "language sample_book = []" by blast
  from t k have c6: "Book_validate no_lax (JObj ((''isbn'', JArr []) # sample_doc)) = Inr sample_book"
    by blast
  from h c1 c2 n c3 p c4 l c5 c6 show ?thesis by (intro conjI)
qed

text \<open>
  The claim as it was stated takes \<open>author_name\<close> and \<open>number_of_pages_median\<close> for the
  only keys of their fields. A mapping with neither of them, but with \<open>author_names\<close> and
  \<open>number_of_pages\<close>, validates into a record whose author names are not empty and
  whose number of pages is known.
\<close>

theorem Book_validate_public_name_counterexample:
  "map_of by_name_doc ''author_name'' = None
   \<and> map_of by_name_doc ''number_of_pages_median'' = None
   \<and> Book_validate no_lax (JObj by_name_doc) = Inr by_name_book
   \<and> author_names by_name_book \<noteq> []
   \<and> number_of_pages by_name_book \<noteq> None"
  by (simp add: validate_defs by_name_doc_def by_name_book_def)




text \<open>
  Claim C9. When the reply to the request is a response whose status is not a success,
  \<open>fetch_books\<close> ends with \<open>HTTPStatusError\<close> carrying the status code. It has sent
  exactly one request and taken exactly one reply: the replies that follow stay pending,
  so nothing is retried. The outcome is the same whatever the body of the response is:
  the body is not read.
\<close>

theorem fetch_books_http_error:
  "pending net = Reply r # rest \<Longrightarrow> \<not> is_success r \<Longrightarrow>
     fetch_books lax query limit net =
       (Inl (HTTPStatusError (status_code r)),
        net\<lparr>sent := sent net @ [request_of query limit], pending := rest\<rparr>)
   \<and> fetch_books lax query limit (net\<lparr>pending := Reply (r\<lparr>content := body\<rparr>) # rest\<rparr>) =
       fetch_books lax query limit net"
proof
  assume p: "pending net = Reply r # rest" and s: "\<not> is_success r"
  show a: "fetch_books lax query limit net =
       (Inl (HTTPStatusError (status_code r)),
        net\<lparr>sent := sent net @ [request_of query limit], pending := rest\<rparr>)"
    using s by (simp add: fetch_books_Reply [OF p] raise_for_status_def)
  have p': "pending (net\<lparr>pending := Reply (r\<lparr>content := body\<rparr>) # rest\<rparr>) =
              Reply (r\<lparr>content := body\<rparr>) # rest"
    by simp
  have s': "\<not> is_success (r\<lparr>content := body\<rparr>)"
    using s by (simp add: is_success_def)
  show "fetch_books lax query limit (net\<lparr>pending := Reply (r\<lparr>content := body\<rparr>) # rest\<rparr>) =
       fetch_books lax query limit net"
    using s' by (simp add: fetch_books_Reply [OF p'] a raise_for_status_def)
qed

theorem fetch_books_http_error_witness:
  "pending (net_of [Reply \<lparr>status_code = 500, content = body_ok\<rparr>,
                    Reply \<lparr>status_code = 200, content = body_ok\<rparr>]) =
     Reply \<lparr>status_code = 500, content = body_ok\<rparr> # [Reply \<lparr>status_code = 200, content = body_ok\<rparr>]
   \<and> \<not> is_success \<lparr>status_code = 500, content = body_ok\<rparr>
   \<and> fetch_books no_lax ''dune'' 100
        (net_of [Reply \<lparr>status_code = 500, content = body_ok\<rparr>,
                 Reply \<lparr>status_code = 200, content = body_ok\<rparr>]) =
       (Inl (HTTPStatusError 500),
        \<lparr>pending = [Reply \<lparr>status_code = 200, content = body_ok\<rparr>],
         sent = [request_of ''dune'' 100]\<rparr>)"
proof -
  have h1: "pending (net_of [Reply \<lparr>status_code = 500, content = body_ok\<rparr>,
                    Reply \<lparr>status_code = 200, content = body_ok\<rparr>]) =
     Reply \<lparr>status_code = 500, content = body_ok\<rparr> # [Reply \<lparr>status_code = 200, content = body_ok\<rparr>]"
    by (simp add: net_of_def)
  have h2: "\<not> is_success \<lparr>status_code = 500, content = body_ok\<rparr>"
    by (simp add: is_success_def)
  from fetch_books_http_error [OF h1 h2, of no_lax "''dune''" 100]
  have "fetch_books no_lax ''dune'' 100
        (net_of [Reply \<lparr>status_code = 500, content = body_ok\<rparr>,
                 Reply \<lparr>status_code = 200, content = body_ok\<rparr>]) =
       (Inl (HTTPStatusError 500),
        \<lparr>pending = [Reply \<lparr>status_code = 200, content = body_ok\<rparr>],
         sent = [request_of ''dune'' 100]\<rparr>)"
    by (simp add: net_of_def)
  with h1 h2 show ?thesis by (intro conjI)
qed



section \<open>Writing JSON and reading it back\<close>

declare scan_once.simps [simp del] JSONArray.simps [simp del] array_loop.simps [simp del]
  JSONObject.simps [simp del] object_loop.simps [simp del] decimal.simps [simp del]
















































lemma scan_once_array: "scan_once (CHR ''['' # s) = JSONArray s"
  by (subst scan_once.simps) simp

lemma scan_once_object: "scan_once (CHR ''{'' # s) = JSONObject s"
  by (subst scan_once.simps) simp


lemma cons_chunk_eq_Inr:
  "cons_chunk c x = Inr (t, r) \<longleftrightarrow> (\<exists>t'. x = Inr (t', r) \<and> t = c # t')"
  by (cases x) (auto simp: cons_chunk_def)

lemma cons_chunk_shorter:
  assumes "cons_chunk c (scanstring s') = Inr (t, r)"
    and "\<And>t'. scanstring s' = Inr (t', r) \<Longrightarrow> length r < length s'"
    and "length s' \<le> n"
  shows "length r < Suc n"
proof -
  from assms(1) obtain t' where "scanstring s' = Inr (t', r)"
    by (auto simp: cons_chunk_eq_Inr)
  from assms(2) [OF this] assms(3) show ?thesis by simp
qed

lemma scanstring_shorter: "scanstring s = Inr (t, r) \<Longrightarrow> length r < length s"
proof (induction "length s" arbitrary: s t r rule: less_induct)
  case less
  have IH: "length r < length s'"
    if "scanstring s' = Inr (t', r)" and "length s' < length s" for s' t'
    using less.hyps that by blast
  show ?case
  proof (cases s)
    case Nil
    with less.prems show ?thesis by simp
  next
    case s: (Cons c cs)
    show ?thesis
    proof (cases "c = dquote")
      case True
      with less.prems s show ?thesis by simp
    next
      case nq: False
      show ?thesis
      proof (cases "c = backslash")
        case bs: True
        show ?thesis
        proof (cases cs)
          case Nil
          with less.prems s nq bs show ?thesis by simp
        next
          case cs: (Cons e r1)
          show ?thesis
          proof (cases "e = CHR ''u''")
            case u: True
            from less.prems s nq bs cs u obtain h1 h2 h3 h4 r' uni
              where r1: "r1 = h1 # h2 # h3 # h4 # r'"
                and cc: "cons_chunk (char_of (uni :: nat)) (scanstring r') = Inr (t, r)"
              by (auto split: list.splits option.splits if_splits)
            have "length r < Suc (length r')"
              by (rule cons_chunk_shorter [OF cc IH]) (simp_all add: s cs r1)
            with s cs r1 show ?thesis by simp
          next
            case nu: False
            from less.prems s nq bs cs nu obtain ch
              where cc: "cons_chunk ch (scanstring r1) = Inr (t, r)"
              by (auto split: option.splits)
            have "length r < Suc (length r1)"
              by (rule cons_chunk_shorter [OF cc IH]) (simp_all add: s cs)
            with s cs show ?thesis by simp
          qed
        qed
      next
        case nb: False
        from less.prems s nq nb have cc: "cons_chunk c (scanstring cs) = Inr (t, r)"
          by (simp split: if_splits)
        have "length r < Suc (length cs)"
          by (rule cons_chunk_shorter [OF cc IH]) (simp_all add: s)
        with s show ?thesis by simp
      qed
    qed
  qed
qed

lemma match_integer_shorter: "match_integer s = Some (i, r) \<Longrightarrow> length r < length s"
  by (auto simp: match_integer_def Let_def split: list.splits if_splits
      intro: le_less_trans [OF length_dropWhile_le])

lemma match_frac_shorter: "match_frac s = (f, r) \<Longrightarrow> length r \<le> length s"
  by (auto simp: match_frac_def split: list.splits if_splits
      intro: le_trans [OF length_dropWhile_le])

lemma match_exp_shorter: "match_exp s = (e, r) \<Longrightarrow> length r \<le> length s"
  by (auto simp: match_exp_def Let_def split: list.splits if_splits
      intro: le_trans [OF length_dropWhile_le])

lemma match_number_shorter: "match_number s = Some (i, f, e, r) \<Longrightarrow> length r < length s"
proof -
  assume a: "match_number s = Some (i, f, e, r)"
  then obtain i0 r0 where i: "match_integer s = Some (i0, r0)"
    by (cases "match_integer s") (auto simp: match_number_def)
  obtain f' r1 where f: "match_frac r0 = (f', r1)" by (cases "match_frac r0")
  obtain e' r2 where e: "match_exp r1 = (e', r2)" by (cases "match_exp r1")
  from a i f e have "r = r2" by (simp add: match_number_def)
  with match_integer_shorter [OF i] match_frac_shorter [OF f] match_exp_shorter [OF e]
  show ?thesis by simp
qed



lemma scan_once_leaf_shorter:
  "c \<noteq> CHR ''{'' \<Longrightarrow> c \<noteq> CHR ''['' \<Longrightarrow> scan_once (c # cs) = Inr (v, r) \<Longrightarrow>
   length r < Suc (length cs)"
  by (subst (asm) scan_once.simps)
    (auto split: if_splits sum.splits option.splits
      dest: scanstring_shorter match_number_shorter)

lemma parse_shorter:
  "scan_once s = Inr (v, r) \<Longrightarrow> length r < length s"
  "JSONArray s = Inr (v, r) \<Longrightarrow> length r < length s"
  "array_loop s = Inr (vs, r) \<Longrightarrow> length r < length s"
  "JSONObject s = Inr (v, r) \<Longrightarrow> length r < length s"
  "object_loop s = Inr (ps, r) \<Longrightarrow> length r < length s"
proof (induction s and s and s and s and s
    arbitrary: v r and v r and vs r and v r and ps r
    rule: scan_once_JSONArray_array_loop_JSONObject_object_loop.induct)
  case (1 s)
  show ?case
  proof (cases s)
    case Nil
    with "1.prems" show ?thesis by (simp add: scan_once.simps)
  next
    case (Cons c cs)
    consider (obj) "c = CHR ''{''" | (arr) "c = CHR ''[''" | (leaf) "c \<noteq> CHR ''{''" "c \<noteq> CHR ''[''"
      by blast
    then show ?thesis
    proof cases
      case obj
      with "1.prems" Cons have "JSONObject cs = Inr (v, r)" by (simp add: scan_once_object)
      from "1.IH"(1) [OF Cons _ obj this] show ?thesis using Cons obj by simp
    next
      case arr
      with "1.prems" Cons have "JSONArray cs = Inr (v, r)" by (simp add: scan_once_array)
      from "1.IH"(2) [OF Cons _ _ arr this] show ?thesis using Cons arr by simp
    next
      case leaf
      from scan_once_leaf_shorter [OF leaf] "1.prems" Cons show ?thesis by simp
    qed
  qed
next
  case (2 s)
  show ?case
  proof (cases "skipws s")
    case Nil
    with "2.prems" show ?thesis by (simp add: JSONArray.simps)
  next
    case (Cons c cs)
    note len = skipws_Cons_length [OF Cons]
    show ?thesis
    proof (cases "c = CHR '']''")
      case True
      with "2.prems" Cons len show ?thesis by (simp add: JSONArray.simps)
    next
      case False
      with "2.prems" Cons obtain vs where "array_loop (c # cs) = Inr (vs, r)"
        by (auto simp: JSONArray.simps split: sum.splits)
      from "2.IH" [OF Cons False this] len show ?thesis by simp
    qed
  qed
next
  case (3 s)
  from "3.prems" obtain v r0 where sc: "scan_once s = Inr (v, r0)"
    by (subst (asm) array_loop.simps) (auto split: sum.splits)
  note l0 = "3.IH"(1) [OF sc]
  from "3.prems" sc obtain c r' where sk: "skipws r0 = c # r'"
    by (subst (asm) array_loop.simps) (auto split: list.splits)
  note l1 = skipws_Cons_length [OF sk]
  show ?case
  proof (cases "c = CHR '']''")
    case True
    with "3.prems" sc sk have "r = r'"
      by (subst (asm) array_loop.simps) simp
    with l0 l1 show ?thesis by simp
  next
    case False
    with "3.prems" sc sk have comma: "\<not> c \<noteq> CHR '',''" and g: "length r' < length s"
      by (subst (asm) array_loop.simps, auto split: if_splits)+
    from "3.prems" sc sk False comma g obtain vs' where
      "array_loop (skipws r') = Inr (vs', r)"
      by (subst (asm) array_loop.simps) (auto split: sum.splits)
    from "3.IH"(2) [OF sc refl sk False comma g this] length_skipws [of r'] g
    show ?thesis by simp
  qed
next
  case (4 s)
  show ?case
  proof (cases "skipws s")
    case Nil
    with "4.prems" show ?thesis by (simp add: JSONObject.simps)
  next
    case (Cons c cs)
    note len = skipws_Cons_length [OF Cons]
    show ?thesis
    proof (cases "c = CHR ''}''")
      case True
      with "4.prems" Cons len show ?thesis by (simp add: JSONObject.simps)
    next
      case False
      with "4.prems" Cons have q: "\<not> c \<noteq> dquote"
        by (auto simp: JSONObject.simps split: if_splits)
      with "4.prems" Cons False obtain ps where "object_loop cs = Inr (ps, r)"
        by (auto simp: JSONObject.simps split: sum.splits)
      from "4.IH" [OF Cons False q this] len show ?thesis by simp
    qed
  qed
next
  case (5 s)
  from "5.prems" obtain key r0 where ss: "scanstring s = Inr (key, r0)"
    by (subst (asm) object_loop.simps) (auto split: sum.splits)
  from "5.prems" ss obtain c r1 where sk: "skipws r0 = c # r1"
    by (subst (asm) object_loop.simps) (auto split: list.splits)
  from "5.prems" ss sk have colon: "\<not> c \<noteq> CHR '':''" and g: "length r1 < length s"
    by (subst (asm) object_loop.simps, auto split: if_splits)+
  from "5.prems" ss sk colon g obtain v r2 where sc: "scan_once (skipws r1) = Inr (v, r2)"
    by (subst (asm) object_loop.simps) (auto split: sum.splits)
  note l2 = "5.IH"(1) [OF ss refl sk colon g sc]
  from "5.prems" ss sk colon g sc obtain c3 r3 where sk2: "skipws r2 = c3 # r3"
    by (subst (asm) object_loop.simps) (auto split: list.splits)
  note l3 = skipws_Cons_length [OF sk2]
  have base: "length r3 < length s"
    using l2 l3 length_skipws [of r1] g by simp
  show ?case
  proof (cases "c3 = CHR ''}''")
    case True
    with "5.prems" ss sk colon g sc sk2 have "r = r3"
      by (subst (asm) object_loop.simps) simp
    with base show ?thesis by simp
  next
    case False
    with "5.prems" ss sk colon g sc sk2 have comma: "\<not> c3 \<noteq> CHR '',''"
      by (subst (asm) object_loop.simps) (auto split: if_splits)
    from "5.prems" ss sk colon g sc sk2 False comma obtain q r4 where sk3: "skipws r3 = q # r4"
      by (subst (asm) object_loop.simps) (auto split: list.splits)
    from "5.prems" ss sk colon g sc sk2 False comma sk3
    have dq: "\<not> q \<noteq> dquote" and g4: "length r4 < length s"
      by (subst (asm) object_loop.simps, auto split: if_splits)+
    from "5.prems" ss sk colon g sc sk2 False comma sk3 dq g4 obtain ps' where
      "object_loop r4 = Inr (ps', r)"
      by (subst (asm) object_loop.simps) (auto split: sum.splits)
    from "5.IH"(2) [OF ss refl sk colon g sc refl sk2 False comma sk3 dq g4 this] g4
    show ?thesis by simp
  qed
qed


lemma array_loop_eq:
  "array_loop s =
     (case scan_once s of
        Inl e \<Rightarrow> Inl e
      | Inr (v, r) \<Rightarrow>
          (case skipws r of
             [] \<Rightarrow> Inl JSONDecodeError
           | nextchar # r' \<Rightarrow>
               if nextchar = CHR '']'' then Inr ([v], r')
               else if nextchar \<noteq> CHR '','' then Inl JSONDecodeError
               else (case array_loop (skipws r') of
                       Inl e \<Rightarrow> Inl e
                     | Inr (values, r'') \<Rightarrow> Inr (v # values, r''))))"
proof (cases "scan_once s")
  case (Inl e)
  then show ?thesis by (subst array_loop.simps) simp
next
  case (Inr p)
  obtain v r where p: "p = (v, r)" by (cases p)
  from Inr p have l: "length r < length s" by (simp add: parse_shorter)
  show ?thesis
  proof (cases "skipws r")
    case Nil
    with Inr p show ?thesis by (subst array_loop.simps) simp
  next
    case (Cons c r')
    from skipws_Cons_length [OF Cons] l have "length r' < length s" by simp
    with Inr p Cons show ?thesis by (subst array_loop.simps) simp
  qed
qed

lemma object_loop_eq:
  "object_loop s =
     (case scanstring s of
        Inl e \<Rightarrow> Inl e
      | Inr (key, r) \<Rightarrow>
          (case skipws r of
             [] \<Rightarrow> Inl JSONDecodeError
           | colon # r1 \<Rightarrow>
               if colon \<noteq> CHR '':'' then Inl JSONDecodeError
               else
                 (case scan_once (skipws r1) of
                    Inl e \<Rightarrow> Inl e
                  | Inr (v, r2) \<Rightarrow>
                      (case skipws r2 of
                         [] \<Rightarrow> Inl JSONDecodeError
                       | nextchar # r3 \<Rightarrow>
                           if nextchar = CHR ''}'' then Inr ([(key, v)], r3)
                           else if nextchar \<noteq> CHR '','' then Inl JSONDecodeError
                           else
                             (case skipws r3 of
                                [] \<Rightarrow> Inl JSONDecodeError
                              | q # r4 \<Rightarrow>
                                  if q \<noteq> dquote then Inl JSONDecodeError
                                  else
                                    (case object_loop r4 of
                                       Inl e \<Rightarrow> Inl e
                                     | Inr (pairs, r5) \<Rightarrow> Inr ((key, v) # pairs, r5)))))))"
proof (cases "scanstring s")
  case (Inl e)
  then show ?thesis by (subst object_loop.simps) simp
next
  case (Inr p)
  obtain key r where p: "p = (key, r)" by (cases p)
  from Inr p have l: "length r < length s" by (simp add: scanstring_shorter)
  show ?thesis
  proof (cases "skipws r")
    case Nil
    with Inr p show ?thesis by (subst object_loop.simps) simp
  next
    case (Cons c r1)
    from skipws_Cons_length [OF Cons] l have l1: "length r1 < length s" by simp
    show ?thesis
    proof (cases "scan_once (skipws r1)")
      case (Inl e)
      with Inr p Cons l1 show ?thesis by (subst object_loop.simps) simp
    next
      case sc: (Inr p2)
      obtain v r2 where p2: "p2 = (v, r2)" by (cases p2)
      from sc p2 have "length r2 < length (skipws r1)" by (simp add: parse_shorter)
      with length_skipws [of r1] l1 have l2: "length r2 < length s" by simp
      show ?thesis
      proof (cases "skipws r2")
        case Nil
        with Inr p Cons l1 sc p2 show ?thesis by (subst object_loop.simps) simp
      next
        case c3: (Cons c3 r3)
        from skipws_Cons_length [OF c3] l2 have l3: "length r3 < length s" by simp
        show ?thesis
        proof (cases "skipws r3")
          case Nil
          with Inr p Cons l1 sc p2 c3 show ?thesis by (subst object_loop.simps) simp
        next
          case c4: (Cons q r4)
          from skipws_Cons_length [OF c4] l3 have "length r4 < length s" by simp
          with Inr p Cons l1 sc p2 c3 c4 show ?thesis by (subst object_loop.simps) simp
        qed
      qed
    qed
  qed
qed








end
